theory Spec2Isabelle
  imports Main
begin

section \<open>The sliding-window rate limiter of \<^verbatim>\<open>api/analyze.ts\<close>\<close>

text \<open>
  The source:
  \<^verbatim>\<open>
  const requestLog = new Map<string, number[]>();
  const MAX_REQUESTS_PER_HOUR = 20;

  function checkRateLimit(ip: string): boolean {
    const now = Date.now();
    const oneHourAgo = now - 60 * 60 * 1000;

    const requests = requestLog.get(ip) || [];
    const recentRequests = requests.filter(time => time > oneHourAgo);

    if (recentRequests.length >= MAX_REQUESTS_PER_HOUR) {
      return false;
    }

    recentRequests.push(now);
    requestLog.set(ip, recentRequests);
    return true;
  }
  \<close>

  The module-level \<^verbatim>\<open>Map\<close> is the state: a partial map from the identity string to the
  array of timestamps, passed in and returned. \<^verbatim>\<open>Date.now()\<close> is the one input the
  function reads from its environment; it is an integral number of milliseconds, and the
  model takes it as the argument \<open>now\<close> of type \<open>int\<close> (the subtraction of the window is
  exact on such values). \<^verbatim>\<open>requestLog.get(ip)\<close> is \<^verbatim>\<open>undefined\<close> exactly for an absent
  key (an array, also the empty one, is truthy), so \<^verbatim>\<open>|| []\<close> is the \<open>None\<close> case.
  \<^verbatim>\<open>filter\<close> builds a fresh array: the stored array is never updated in place, and on the
  early \<^verbatim>\<open>return false\<close> the map is not written at all.
\<close>

type_synonym requestLog = "string \<rightharpoonup> int list"

definition MAX_REQUESTS_PER_HOUR :: nat where
  "MAX_REQUESTS_PER_HOUR = 20"

definition checkRateLimit :: "requestLog \<Rightarrow> string \<Rightarrow> int \<Rightarrow> bool \<times> requestLog" where
  "checkRateLimit requestLog ip now =
     (let oneHourAgo = now - 60 * 60 * 1000;
          requests = (case requestLog ip of None \<Rightarrow> [] | Some ts \<Rightarrow> ts);
          recentRequests = filter (\<lambda>time. time > oneHourAgo) requests
      in if length recentRequests \<ge> MAX_REQUESTS_PER_HOUR
         then (False, requestLog)
         else (True, requestLog(ip \<mapsto> recentRequests @ [now])))"

text \<open>
  The request handler calls \<open>checkRateLimit\<close> once per request. A run is the list of
  these calls, each with its identity and the time the clock showed; \<open>runCalls\<close> is the
  map after the run, \<open>runResults\<close> the answers in order, and \<open>admitted\<close> the times of
  the calls of one identity that were answered \<open>true\<close>. The process starts with the
  empty map.
\<close>

fun runCalls :: "requestLog \<Rightarrow> (string \<times> int) list \<Rightarrow> requestLog" where
  "runCalls log [] = log"
| "runCalls log ((ip, now) # cs) = runCalls (snd (checkRateLimit log ip now)) cs"

fun runResults :: "requestLog \<Rightarrow> (string \<times> int) list \<Rightarrow> bool list" where
  "runResults log [] = []"
| "runResults log ((ip, now) # cs) =
     fst (checkRateLimit log ip now) # runResults (snd (checkRateLimit log ip now)) cs"

fun admitted :: "requestLog \<Rightarrow> (string \<times> int) list \<Rightarrow> string \<Rightarrow> int list" where
  "admitted log [] a = []"
| "admitted log ((ip, now) # cs) a =
     (if fst (checkRateLimit log ip now) \<and> ip = a then [now] else [])
       @ admitted (snd (checkRateLimit log ip now)) cs a"

text \<open>The stored timestamps of an identity, empty when the map has no entry for it.\<close>

definition stored :: "requestLog \<Rightarrow> string \<Rightarrow> int list" where
  "stored log ip = (case log ip of None \<Rightarrow> [] | Some ts \<Rightarrow> ts)"

section \<open>Basic facts\<close>

lemma check_fst:
  "fst (checkRateLimit log ip now) =
     (length (filter (\<lambda>t. now - 3600000 < t) (stored log ip)) < 20)"
  by (auto simp: checkRateLimit_def stored_def MAX_REQUESTS_PER_HOUR_def Let_def)

lemma check_snd_admit:
  "fst (checkRateLimit log ip now) \<Longrightarrow>
     snd (checkRateLimit log ip now) =
       log(ip \<mapsto> filter (\<lambda>t. now - 3600000 < t) (stored log ip) @ [now])"
  by (auto simp: checkRateLimit_def stored_def MAX_REQUESTS_PER_HOUR_def Let_def)

lemma check_snd_reject:
  "\<not> fst (checkRateLimit log ip now) \<Longrightarrow> snd (checkRateLimit log ip now) = log"
  by (auto simp: checkRateLimit_def Let_def)

lemma stored_check_other:
  "a \<noteq> ip \<Longrightarrow> stored (snd (checkRateLimit log ip now)) a = stored log a"
  by (cases "fst (checkRateLimit log ip now)")
     (simp_all add: check_snd_admit check_snd_reject stored_def)

lemma stored_check_admit:
  "fst (checkRateLimit log ip now) \<Longrightarrow>
     stored (snd (checkRateLimit log ip now)) ip =
       filter (\<lambda>t. now - 3600000 < t) (stored log ip) @ [now]"
  by (simp add: check_snd_admit stored_def)

lemma runCalls_snoc:
  "runCalls log (cs @ [(ip, now)]) = snd (checkRateLimit (runCalls log cs) ip now)"
  by (induction log cs rule: runCalls.induct) simp_all

lemma runResults_snoc:
  "runResults log (cs @ [(ip, now)]) =
     runResults log cs @ [fst (checkRateLimit (runCalls log cs) ip now)]"
  by (induction log cs rule: runResults.induct) simp_all

lemma admitted_snoc:
  "admitted log (cs @ [(ip, now)]) a =
     admitted log cs a
       @ (if fst (checkRateLimit (runCalls log cs) ip now) \<and> ip = a then [now] else [])"
  by (induction log cs a rule: admitted.induct) simp_all

lemma length_stored_check:
  "length (stored log a) \<le> 20 \<Longrightarrow>
     length (stored (snd (checkRateLimit log ip now)) a) \<le> 20"
proof (cases "fst (checkRateLimit log ip now) \<and> a = ip")
  case True
  then have "length (filter (\<lambda>t. now - 3600000 < t) (stored log ip)) < 20"
    by (simp add: check_fst)
  with True show ?thesis
    by (simp add: stored_check_admit)
next
  case False
  assume "length (stored log a) \<le> 20"
  with False show ?thesis
    by (cases "a = ip") (auto simp: check_snd_reject stored_check_other)
qed

lemma length_stored_runCalls:
  "length (stored log a) \<le> 20 \<Longrightarrow> length (stored (runCalls log cs) a) \<le> 20"
  by (induction log cs rule: runCalls.induct) (simp_all add: length_stored_check)

lemma stored_empty: "stored Map.empty a = []"
  by (simp add: stored_def)


lemma check_local:
  "checkRateLimit log ip now =
     (length (filter (\<lambda>t. now - 3600000 < t) (case log ip of None \<Rightarrow> [] | Some ts \<Rightarrow> ts)) < 20,
      log(ip := if length (filter (\<lambda>t. now - 3600000 < t)
                     (case log ip of None \<Rightarrow> [] | Some ts \<Rightarrow> ts)) < 20
                then Some (filter (\<lambda>t. now - 3600000 < t)
                     (case log ip of None \<Rightarrow> [] | Some ts \<Rightarrow> ts) @ [now])
                else log ip))"
  by (auto simp: checkRateLimit_def MAX_REQUESTS_PER_HOUR_def Let_def)

lemma check_other: "a \<noteq> b \<Longrightarrow> snd (checkRateLimit log a now) b = log b"
  by (simp add: check_local)

lemma check_cong:
  "log1 a = log2 b \<Longrightarrow>
     fst (checkRateLimit log1 a now) = fst (checkRateLimit log2 b now) \<and>
     snd (checkRateLimit log1 a now) a = snd (checkRateLimit log2 b now) b"
  by (simp add: check_local)

subsection \<open>Repeated calls of one identity at one time\<close>

lemma replicate_snoc: "replicate (Suc n) x = replicate n x @ [x]"
  by (simp add: replicate_append_same)

lemma stored_repeat:
  "stored log ip = [] \<Longrightarrow>
     stored (runCalls log (replicate n (ip, now))) ip = replicate (min n 20) now"
proof (induction n)
  case 0
  then show ?case by simp
next
  case (Suc n)
  let ?s = "runCalls log (replicate n (ip, now))"
  have st: "stored ?s ip = replicate (min n 20) now"
    using Suc by simp
  have run: "runCalls log (replicate (Suc n) (ip, now)) = snd (checkRateLimit ?s ip now)"
    by (simp only: replicate_snoc runCalls_snoc)
  have dec: "fst (checkRateLimit ?s ip now) = (n < 20)"
    by (auto simp: check_fst st)
  show ?case
  proof (cases "n < 20")
    case True
    then show ?thesis
      unfolding run by (simp add: stored_check_admit dec st replicate_append_same)
  next
    case False
    then show ?thesis
      unfolding run by (simp add: check_snd_reject dec st)
  qed
qed

lemma results_repeat:
  "stored log ip = [] \<Longrightarrow>
     runResults log (replicate n (ip, now)) = map (\<lambda>k. k < 20) [0..<n]"
proof (induction n)
  case 0
  then show ?case by simp
next
  case (Suc n)
  have "runResults log (replicate (Suc n) (ip, now)) =
      runResults log (replicate n (ip, now))
        @ [fst (checkRateLimit (runCalls log (replicate n (ip, now))) ip now)]"
    by (simp only: replicate_snoc runResults_snoc)
  also have "fst (checkRateLimit (runCalls log (replicate n (ip, now))) ip now) = (n < 20)"
    by (auto simp: check_fst stored_repeat [OF Suc.prems])
  finally show ?case
    using Suc by simp
qed

lemma rejected_repeat:
  "\<not> fst (checkRateLimit log ip now) \<Longrightarrow>
     runCalls log (replicate n (ip, now)) = log \<and>
     runResults log (replicate n (ip, now)) = replicate n False"
  by (induction n) (simp_all add: check_snd_reject)

lemma map_less_upt: "map (\<lambda>k. k < (20::nat)) [0..<21] = replicate 20 True @ [False]"
  by code_simp

lemma map_less_upt20: "map (\<lambda>k. k < (20::nat)) [0..<20] = replicate 20 True"
  by code_simp

lemma after_quota:
  "stored (runCalls Map.empty (replicate 20 (ip, T))) ip = replicate 20 T"
  using stored_repeat [of Map.empty ip 20 T] by (simp add: stored_empty)

lemma after_quota_entry:
  "runCalls Map.empty (replicate 20 (ip, T)) ip = Some (replicate 20 T)"
  using after_quota [of ip T] by (auto simp: stored_def split: option.splits)

subsection \<open>Reachable states\<close>

lemma filter_full:
  assumes "length xs \<le> n" and "n \<le> length (filter P xs)"
  shows "filter P xs = xs"
proof -
  have "length (filter P xs) = length xs"
    using assms length_filter_le [of P xs] by linarith
  then show ?thesis
    by (metis filter_True length_filter_less less_irrefl)
qed

lemma reachable_entry_length:
  "runCalls Map.empty cs ip = Some ts \<Longrightarrow> length ts \<le> 20"
  using length_stored_runCalls [of Map.empty ip cs] by (simp add: stored_def)

lemma expired_frees_slot:
  assumes ent: "runCalls Map.empty cs ip = Some ts"
    and mem: "t \<in> set ts" and old: "t \<le> now - 3600000"
  shows "fst (checkRateLimit (runCalls Map.empty cs) ip now)"
    and "snd (checkRateLimit (runCalls Map.empty cs) ip now) ip
           = Some (filter (\<lambda>u. now - 3600000 < u) ts @ [now])"
proof -
  have "length (filter (\<lambda>u. now - 3600000 < u) ts) < length ts"
    using mem old by (intro length_filter_less [of t]) auto
  also have "length ts \<le> 20"
    using ent by (rule reachable_entry_length)
  finally show adm: "fst (checkRateLimit (runCalls Map.empty cs) ip now)"
    using ent by (simp add: check_fst stored_def)
  show "snd (checkRateLimit (runCalls Map.empty cs) ip now) ip
           = Some (filter (\<lambda>u. now - 3600000 < u) ts @ [now])"
    using ent by (simp add: check_snd_admit [OF adm] stored_def)
qed

subsection \<open>Calls of other identities\<close>

lemma runCalls_other:
  "\<forall>c \<in> set cs. fst c \<noteq> b \<Longrightarrow> runCalls log cs b = log b"
  by (induction log cs rule: runCalls.induct) (simp_all add: check_other)

lemma run_project:
  "log1 b = log2 b \<Longrightarrow>
     runCalls log1 cs b = runCalls log2 (filter (\<lambda>c. fst c = b) cs) b \<and>
     admitted log1 cs b = admitted log2 (filter (\<lambda>c. fst c = b) cs) b"
proof (induction cs arbitrary: log1 log2)
  case Nil
  then show ?case by simp
next
  case (Cons c cs)
  obtain ip now where c: "c = (ip, now)"
    by (cases c)
  show ?case
  proof (cases "ip = b")
    case True
    have "snd (checkRateLimit log1 b now) b = snd (checkRateLimit log2 b now) b"
      and "fst (checkRateLimit log1 b now) = fst (checkRateLimit log2 b now)"
      using check_cong [of log1 b log2 b now] Cons.prems by simp_all
    with True c Cons.IH [of "snd (checkRateLimit log1 b now)" "snd (checkRateLimit log2 b now)"]
    show ?thesis by simp
  next
    case False
    then have "snd (checkRateLimit log1 ip now) b = log2 b"
      using Cons.prems by (simp add: check_other)
    with False c Cons.IH [of "snd (checkRateLimit log1 ip now)" log2]
    show ?thesis by simp
  qed
qed

lemma results_rename:
  "log1 a = log2 b \<Longrightarrow>
     runResults log1 (map (Pair a) ts) = runResults log2 (map (Pair b) ts) \<and>
     runCalls log1 (map (Pair a) ts) a = runCalls log2 (map (Pair b) ts) b"
proof (induction ts arbitrary: log1 log2)
  case Nil
  then show ?case by simp
next
  case (Cons t ts)
  have "fst (checkRateLimit log1 a t) = fst (checkRateLimit log2 b t)"
    and "snd (checkRateLimit log1 a t) a = snd (checkRateLimit log2 b t) b"
    using check_cong [of log1 a log2 b t] Cons.prems by simp_all
  with Cons.IH [of "snd (checkRateLimit log1 a t)" "snd (checkRateLimit log2 b t)"]
  show ?case by simp
qed

subsection \<open>Admitted calls and the stored list, for a clock that never goes back\<close>

lemma admitted_times: "set (admitted log cs a) \<subseteq> snd ` set cs"
  by (induction log cs a rule: admitted.induct) auto

lemma filter_window_mono:
  fixes c d :: int
  shows "c \<le> d \<Longrightarrow> filter (\<lambda>t. d < t) (filter (\<lambda>t. c < t) xs) = filter (\<lambda>t. d < t) xs"
  by (induction xs) auto

text \<open>
  What the pruning has dropped by the time \<open>T\<close> is out of the window of \<open>T\<close>: inside
  that window the stored list and the list of all admitted calls are the same.
\<close>

lemma stored_admitted_window:
  "sorted (map snd cs) \<Longrightarrow> \<forall>c \<in> set cs. snd c \<le> T \<Longrightarrow>
     filter (\<lambda>t. T - 3600000 < t) (stored (runCalls Map.empty cs) a)
       = filter (\<lambda>t. T - 3600000 < t) (admitted Map.empty cs a)"
proof (induction cs arbitrary: T rule: rev_induct)
  case Nil
  then show ?case by (simp add: stored_empty)
next
  case (snoc c cs)
  obtain ip now where c: "c = (ip, now)"
    by (cases c)
  let ?log = "runCalls Map.empty cs"
  have srt: "sorted (map snd cs)" and below: "\<forall>x \<in> set cs. snd x \<le> now" and nowT: "now \<le> T"
    using snoc.prems c by (auto simp: sorted_append)
  then have "\<forall>x \<in> set cs. snd x \<le> T"
    by auto
  with srt have IH: "filter (\<lambda>t. T - 3600000 < t) (stored ?log a)
       = filter (\<lambda>t. T - 3600000 < t) (admitted Map.empty cs a)"
    by (rule snoc.IH)
  show ?case
  proof (cases "fst (checkRateLimit ?log ip now) \<and> ip = a")
    case True
    then have adm: "fst (checkRateLimit ?log a now)" and ipa: "ip = a"
      by auto
    have "stored (snd (checkRateLimit ?log ip now)) a
        = filter (\<lambda>t. now - 3600000 < t) (stored ?log a) @ [now]"
      unfolding ipa using adm by (rule stored_check_admit)
    moreover have "filter (\<lambda>t. T - 3600000 < t) (filter (\<lambda>t. now - 3600000 < t) (stored ?log a))
        = filter (\<lambda>t. T - 3600000 < t) (stored ?log a)"
      using nowT by (intro filter_window_mono) simp
    ultimately show ?thesis
      using adm IH by (simp add: c ipa runCalls_snoc admitted_snoc)
  next
    case False
    then have "stored (snd (checkRateLimit ?log ip now)) a = stored ?log a"
      by (cases "ip = a") (auto simp: check_snd_reject stored_check_other)
    with False IH show ?thesis
      by (auto simp: c runCalls_snoc admitted_snoc)
  qed
qed

lemma admitted_window_bound:
  "sorted (map snd cs) \<Longrightarrow>
     length (filter (\<lambda>t. x - 3600000 < t \<and> t \<le> x) (admitted Map.empty cs a)) \<le> 20"
proof (induction cs rule: rev_induct)
  case Nil
  then show ?case by simp
next
  case (snoc c cs)
  obtain ip now where c: "c = (ip, now)"
    by (cases c)
  let ?log = "runCalls Map.empty cs"
  let ?adm = "admitted Map.empty cs a"
  have srt: "sorted (map snd cs)" and below: "\<forall>x \<in> set cs. snd x \<le> now"
    using snoc.prems c by (auto simp: sorted_append)
  have IH: "length (filter (\<lambda>t. x - 3600000 < t \<and> t \<le> x) ?adm) \<le> 20"
    using srt by (rule snoc.IH)
  show ?case
  proof (cases "fst (checkRateLimit ?log ip now) \<and> ip = a \<and> x - 3600000 < now \<and> now \<le> x")
    case False
    with IH show ?thesis
      by (auto simp: c admitted_snoc)
  next
    case True
    have early: "\<forall>t \<in> set ?adm. t \<le> now"
      using admitted_times [of Map.empty cs a] below by auto
    have "length (filter (\<lambda>t. x - 3600000 < t \<and> t \<le> x) ?adm)
        \<le> length (filter (\<lambda>t. now - 3600000 < t) ?adm)"
    proof -
      have "filter (\<lambda>t. x - 3600000 < t \<and> t \<le> x) ?adm
          = filter (\<lambda>t. x - 3600000 < t) (filter (\<lambda>t. now - 3600000 < t) ?adm)"
        unfolding filter_filter using early True by (intro filter_cong) auto
      then show ?thesis
        by (simp only: length_filter_le)
    qed
    also have "filter (\<lambda>t. now - 3600000 < t) ?adm
        = filter (\<lambda>t. now - 3600000 < t) (stored ?log a)"
      using stored_admitted_window [OF srt below, of a] by simp
    also have "length (filter (\<lambda>t. now - 3600000 < t) (stored ?log a)) < 20"
      using True by (auto simp: check_fst)
    finally show ?thesis
      using True by (simp add: c admitted_snoc)
  qed
qed

section \<open>The claims\<close>

text \<open>
  C1 (the first twenty calls pass, the next one does not). For an identity with no
  stored history (no entry in the map, or an empty one), \<open>MAX_REQUESTS_PER_HOUR + 1\<close>
  calls of \<open>checkRateLimit\<close> for it, all at one and the same time \<open>now\<close>, answer
  \<open>true\<close> on each of the first \<open>MAX_REQUESTS_PER_HOUR = 20\<close> calls and \<open>false\<close> on the
  last one.
\<close>

theorem C1_quota_then_reject:
  "log ip = None \<or> log ip = Some [] \<Longrightarrow>
     runResults log (replicate (MAX_REQUESTS_PER_HOUR + 1) (ip, now))
       = replicate MAX_REQUESTS_PER_HOUR True @ [False]"
proof -
  assume "log ip = None \<or> log ip = Some []"
  then have "stored log ip = []"
    by (auto simp: stored_def)
  then have "runResults log (replicate 21 (ip, now)) = map (\<lambda>k. k < 20) [0..<21]"
    by (rule results_repeat)
  then show ?thesis
    by (simp only: map_less_upt MAX_REQUESTS_PER_HOUR_def) simp
qed

theorem C1_quota_then_reject_witness:
  "(Map.empty :: requestLog) ''203.0.113.7'' = None \<and>
   runResults Map.empty (replicate (MAX_REQUESTS_PER_HOUR + 1) (''203.0.113.7'', 1700000000000))
     = replicate MAX_REQUESTS_PER_HOUR True @ [False]"
  using C1_quota_then_reject [of Map.empty "''203.0.113.7''" 1700000000000] by simp

text \<open>
  C2 (a rejection leaves the map as it was). Whenever \<open>checkRateLimit\<close> answers
  \<open>false\<close>, the map it returns is the map it was given: the rejected attempt is not
  recorded. And for an identity without an entry: after \<open>MAX_REQUESTS_PER_HOUR\<close>
  admitted calls at the time \<open>now\<close>, any number \<open>N\<close> of further calls at that time are
  all rejected, one more check still answers \<open>false\<close>, and the map, and with it the
  history of the identity, is the one right after the twentieth admission.
\<close>

theorem C2_reject_keeps_state:
  "(\<not> fst (checkRateLimit log ip now) \<longrightarrow> snd (checkRateLimit log ip now) = log)
   \<and> (log ip = None \<longrightarrow>
        (let full = runCalls log (replicate MAX_REQUESTS_PER_HOUR (ip, now));
             after = runCalls full (replicate N (ip, now))
         in runResults log (replicate MAX_REQUESTS_PER_HOUR (ip, now))
              = replicate MAX_REQUESTS_PER_HOUR True
            \<and> runResults full (replicate N (ip, now)) = replicate N False
            \<and> \<not> fst (checkRateLimit after ip now)
            \<and> after = full
            \<and> after ip = Some (replicate MAX_REQUESTS_PER_HOUR now)))"
proof (intro conjI impI)
  assume "\<not> fst (checkRateLimit log ip now)"
  then show "snd (checkRateLimit log ip now) = log"
    by (rule check_snd_reject)
next
  assume none: "log ip = None"
  then have empty: "stored log ip = []"
    by (simp add: stored_def)
  let ?full = "runCalls log (replicate 20 (ip, now))"
  have res: "runResults log (replicate 20 (ip, now)) = replicate 20 True"
    by (simp only: results_repeat [OF empty] map_less_upt20)
  have st: "stored ?full ip = replicate 20 now"
    by (simp add: stored_repeat [OF empty])
  then have rej: "\<not> fst (checkRateLimit ?full ip now)"
    by (simp add: check_fst)
  have same: "runCalls ?full (replicate N (ip, now)) = ?full"
    and fs: "runResults ?full (replicate N (ip, now)) = replicate N False"
    using rejected_repeat [OF rej, of N] by simp_all
  have ent: "?full ip = Some (replicate 20 now)"
    using st by (auto simp: stored_def split: option.splits)
  show "let full = runCalls log (replicate MAX_REQUESTS_PER_HOUR (ip, now));
            after = runCalls full (replicate N (ip, now))
        in runResults log (replicate MAX_REQUESTS_PER_HOUR (ip, now))
             = replicate MAX_REQUESTS_PER_HOUR True
           \<and> runResults full (replicate N (ip, now)) = replicate N False
           \<and> \<not> fst (checkRateLimit after ip now)
           \<and> after = full
           \<and> after ip = Some (replicate MAX_REQUESTS_PER_HOUR now)"
    unfolding MAX_REQUESTS_PER_HOUR_def Let_def same
    using res fs rej ent by simp
qed

theorem C2_reject_keeps_state_witness:
  "\<not> fst (checkRateLimit (runCalls Map.empty (replicate 20 (''198.51.100.4'', 1000)))
            ''198.51.100.4'' 1000)
   \<and> snd (checkRateLimit (runCalls Map.empty (replicate 20 (''198.51.100.4'', 1000)))
            ''198.51.100.4'' 1000)
       = runCalls Map.empty (replicate 20 (''198.51.100.4'', 1000))
   \<and> (Map.empty :: requestLog) ''198.51.100.4'' = None
   \<and> runResults (runCalls Map.empty (replicate 20 (''198.51.100.4'', 1000)))
        (replicate 3 (''198.51.100.4'', 1000)) = replicate 3 False
   \<and> runCalls (runCalls Map.empty (replicate 20 (''198.51.100.4'', 1000)))
        (replicate 3 (''198.51.100.4'', 1000)) ''198.51.100.4'' = Some (replicate 20 1000)"
proof -
  let ?ip = "''198.51.100.4''"
  let ?full = "runCalls Map.empty (replicate 20 (?ip, 1000))"
  have a: "runResults ?full (replicate 3 (?ip, 1000)) = replicate 3 False
      \<and> \<not> fst (checkRateLimit (runCalls ?full (replicate 3 (?ip, 1000))) ?ip 1000)
      \<and> runCalls ?full (replicate 3 (?ip, 1000)) = ?full
      \<and> runCalls ?full (replicate 3 (?ip, 1000)) ?ip = Some (replicate 20 1000)"
    using C2_reject_keeps_state [of Map.empty ?ip 1000 3]
    unfolding Let_def MAX_REQUESTS_PER_HOUR_def by blast
  then have rej: "\<not> fst (checkRateLimit ?full ?ip 1000)"
    by metis
  then have "snd (checkRateLimit ?full ?ip 1000) = ?full"
    using C2_reject_keeps_state [of ?full ?ip 1000 0] by blast
  moreover have "(Map.empty :: requestLog) ?ip = None"
    by simp
  ultimately show ?thesis
    using a rej by metis
qed

text \<open>
  C3 (nothing stale after a check). In a state reached from the empty map by any calls,
  right after a call of \<open>checkRateLimit\<close> for \<open>ip\<close> at the time \<open>now\<close>, admitted or
  rejected, the identity has an entry and no timestamp \<open>t\<close> of it is as old as the window
  or older (\<open>t \<le> now - 60 * 60 * 1000\<close>). On an admission the pruned list is what is
  stored. On a rejection nothing is written; the list then holds twenty fresh entries,
  and being no longer than twenty (C10) it holds no other.
\<close>

theorem C3_no_stale_after_check:
  "\<exists>ts. snd (checkRateLimit (runCalls Map.empty cs) ip now) ip = Some ts
        \<and> (\<forall>t \<in> set ts. \<not> t \<le> now - 60 * 60 * 1000)"
proof -
  let ?log = "runCalls Map.empty cs"
  have len: "length (stored ?log ip) \<le> 20"
    by (rule length_stored_runCalls) (simp add: stored_empty)
  show ?thesis
  proof (cases "fst (checkRateLimit ?log ip now)")
    case True
    then show ?thesis
      by (auto simp: check_snd_admit)
  next
    case False
    then have many: "20 \<le> length (filter (\<lambda>t. now - 3600000 < t) (stored ?log ip))"
      by (simp add: check_fst)
    with len have "filter (\<lambda>t. now - 3600000 < t) (stored ?log ip) = stored ?log ip"
      by (rule filter_full)
    then have fresh: "\<forall>t \<in> set (stored ?log ip). now - 3600000 < t"
      by (metis (mono_tags, lifting) filter_id_conv)
    have "stored ?log ip \<noteq> []"
      using many by auto
    then obtain ts where "?log ip = Some ts"
      by (auto simp: stored_def split: option.splits)
    with fresh False show ?thesis
      by (auto simp: check_snd_reject stored_def)
  qed
qed

theorem C3_no_stale_after_check_witness:
  "\<not> fst (checkRateLimit (runCalls Map.empty (replicate 20 (''a'', 0))) ''a'' 5)
   \<and> snd (checkRateLimit (runCalls Map.empty (replicate 20 (''a'', 0))) ''a'' 5) ''a''
       = Some (replicate 20 0)
   \<and> (0::int) \<in> set (replicate 20 0)
   \<and> \<not> (0::int) \<le> 5 - 60 * 60 * 1000"
proof -
  let ?full = "runCalls Map.empty (replicate 20 (''a'', 0))"
  have rej: "\<not> fst (checkRateLimit ?full ''a'' 5)"
    by (simp add: check_fst after_quota)
  then have "snd (checkRateLimit ?full ''a'' 5) ''a'' = Some (replicate 20 0)"
    by (simp add: check_snd_reject after_quota_entry)
  with rej show ?thesis
    using C3_no_stale_after_check [of "replicate 20 (''a'', 0)" "''a''" 5] by simp
qed

text \<open>
  C4 (the sliding window never holds more than the quota). In every state reached from
  the empty map, for every identity and every instant \<open>now\<close>, at most
  \<open>MAX_REQUESTS_PER_HOUR = 20\<close> of the stored timestamps are younger than the window
  (\<open>now - 60 * 60 * 1000 < t\<close>). And when the times of the calls never decrease, the same
  holds of all the calls that were ever admitted for the identity, stored or pruned
  since: at most twenty of them lie in the window \<open>(now - 60 * 60 * 1000, now]\<close>.
\<close>

theorem C4_sliding_window_bound:
  "length (filter (\<lambda>t. now - 60 * 60 * 1000 < t) (stored (runCalls Map.empty cs) ip))
     \<le> MAX_REQUESTS_PER_HOUR
   \<and> (sorted (map snd cs) \<longrightarrow>
        length (filter (\<lambda>t. now - 60 * 60 * 1000 < t \<and> t \<le> now) (admitted Map.empty cs ip))
          \<le> MAX_REQUESTS_PER_HOUR)"
proof (intro conjI impI)
  have "length (filter (\<lambda>t. now - 60 * 60 * 1000 < t) (stored (runCalls Map.empty cs) ip))
      \<le> length (stored (runCalls Map.empty cs) ip)"
    by (rule length_filter_le)
  also have "\<dots> \<le> 20"
    by (rule length_stored_runCalls) (simp add: stored_empty)
  finally show "length (filter (\<lambda>t. now - 60 * 60 * 1000 < t) (stored (runCalls Map.empty cs) ip))
     \<le> MAX_REQUESTS_PER_HOUR"
    by (simp add: MAX_REQUESTS_PER_HOUR_def)
next
  assume "sorted (map snd cs)"
  then show "length (filter (\<lambda>t. now - 60 * 60 * 1000 < t \<and> t \<le> now) (admitted Map.empty cs ip))
          \<le> MAX_REQUESTS_PER_HOUR"
    using admitted_window_bound [of cs now ip] by (simp add: MAX_REQUESTS_PER_HOUR_def)
qed

theorem C4_sliding_window_bound_witness:
  "sorted (map snd (replicate 21 (''a'', 0::int)))
   \<and> admitted Map.empty (replicate 21 (''a'', 0)) ''a'' = replicate 20 0
   \<and> length (filter (\<lambda>t. 0 - 60 * 60 * 1000 < t \<and> t \<le> 0)
        (admitted Map.empty (replicate 21 (''a'', 0)) ''a'')) \<le> MAX_REQUESTS_PER_HOUR"
proof -
  have "sorted (map snd (replicate 21 (''a'', 0::int)))"
    by simp
  moreover have "admitted Map.empty (replicate 21 (''a'', 0)) ''a'' = replicate 20 0"
    by (simp add: numeral_eq_Suc check_local)
  ultimately show ?thesis
    using C4_sliding_window_bound [of 0 "replicate 21 (''a'', 0)" "''a''"] by blast
qed

text \<open>
  C5 (expiry frees the slots of the expired timestamps; the scenario at the constants of
  the source). In a state reached from the empty map, if some stored timestamp \<open>t\<close> of
  the identity, the oldest one for instance, is more than the window back
  (\<open>t + 60 * 60 * 1000 < now\<close>), the call of \<open>checkRateLimit\<close> at \<open>now\<close> is admitted,
  also when the quota was used up before. The entry it stores is the old entry less its
  expired timestamps, followed by \<open>now\<close>: its length and the number of expired timestamps
  add up to the old length plus one, so exactly one slot is freed for each expired
  timestamp. The quota and the window are the constants \<open>MAX_REQUESTS_PER_HOUR = 20\<close>
  and \<open>60 * 60 * 1000\<close> of the source, which has no way to set them otherwise. With
  them: one call at 0 and nineteen at 100 are admitted, the call at 200 is rejected and
  changes nothing, and the call at 3600001 is admitted, the entry of 0 having expired and
  the nineteen of 100 being kept before 3600001 is appended.
\<close>

theorem C5_expiry_frees_slots:
  "(runCalls Map.empty cs ip = Some ts \<and> t \<in> set ts \<and> t + 60 * 60 * 1000 < now \<longrightarrow>
      fst (checkRateLimit (runCalls Map.empty cs) ip now)
      \<and> snd (checkRateLimit (runCalls Map.empty cs) ip now) ip
          = Some (filter (\<lambda>u. now - 60 * 60 * 1000 < u) ts @ [now])
      \<and> length (stored (snd (checkRateLimit (runCalls Map.empty cs) ip now)) ip)
          + length (filter (\<lambda>u. u \<le> now - 60 * 60 * 1000) ts) = length ts + 1)
   \<and> runResults Map.empty ((ip, 0) # replicate 19 (ip, 100) @ [(ip, 200), (ip, 3600001)])
       = replicate MAX_REQUESTS_PER_HOUR True @ [False, True]
   \<and> runCalls Map.empty ((ip, 0) # replicate 19 (ip, 100)) ip = Some (0 # replicate 19 100)
   \<and> runCalls Map.empty ((ip, 0) # replicate 19 (ip, 100) @ [(ip, 200)])
       = runCalls Map.empty ((ip, 0) # replicate 19 (ip, 100))
   \<and> runCalls Map.empty ((ip, 0) # replicate 19 (ip, 100) @ [(ip, 200), (ip, 3600001)]) ip
       = Some (replicate 19 100 @ [3600001])"
proof (intro conjI impI)
  assume a: "runCalls Map.empty cs ip = Some ts \<and> t \<in> set ts \<and> t + 60 * 60 * 1000 < now"
  then have ent: "runCalls Map.empty cs ip = Some ts" and mem: "t \<in> set ts"
    and old: "t \<le> now - 3600000"
    by simp_all
  show "fst (checkRateLimit (runCalls Map.empty cs) ip now)"
    using ent mem old by (rule expired_frees_slot)
  have new: "snd (checkRateLimit (runCalls Map.empty cs) ip now) ip
          = Some (filter (\<lambda>u. now - 3600000 < u) ts @ [now])"
    using ent mem old by (rule expired_frees_slot)
  then show "snd (checkRateLimit (runCalls Map.empty cs) ip now) ip
          = Some (filter (\<lambda>u. now - 60 * 60 * 1000 < u) ts @ [now])"
    by simp
  have "(\<lambda>u. u \<le> now - 3600000) = (\<lambda>u. \<not> now - 3600000 < u)"
    by (simp add: fun_eq_iff not_less)
  then have "length (filter (\<lambda>u. now - 3600000 < u) ts)
          + length (filter (\<lambda>u. u \<le> now - 3600000) ts) = length ts"
    by (simp only: sum_length_filter_compl)
  then show "length (stored (snd (checkRateLimit (runCalls Map.empty cs) ip now)) ip)
          + length (filter (\<lambda>u. u \<le> now - 60 * 60 * 1000) ts) = length ts + 1"
    by (simp add: stored_def new)
next
  show "runResults Map.empty ((ip, 0) # replicate 19 (ip, 100) @ [(ip, 200), (ip, 3600001)])
       = replicate MAX_REQUESTS_PER_HOUR True @ [False, True]"
    by (simp add: numeral_eq_Suc check_local MAX_REQUESTS_PER_HOUR_def)
  show "runCalls Map.empty ((ip, 0) # replicate 19 (ip, 100)) ip = Some (0 # replicate 19 100)"
    by (simp add: numeral_eq_Suc check_local)
  show "runCalls Map.empty ((ip, 0) # replicate 19 (ip, 100) @ [(ip, 200)])
       = runCalls Map.empty ((ip, 0) # replicate 19 (ip, 100))"
    by (simp add: numeral_eq_Suc check_local)
  show "runCalls Map.empty ((ip, 0) # replicate 19 (ip, 100) @ [(ip, 200), (ip, 3600001)]) ip
       = Some (replicate 19 100 @ [3600001])"
    by (simp add: numeral_eq_Suc check_local)
qed

theorem C5_expiry_frees_slots_witness:
  "runCalls Map.empty (replicate 20 (''a'', 0)) ''a'' = Some (replicate 20 0)
   \<and> (0::int) \<in> set (replicate 20 0)
   \<and> (0::int) + 60 * 60 * 1000 < 3600001
   \<and> \<not> fst (checkRateLimit (runCalls Map.empty (replicate 20 (''a'', 0))) ''a'' 200)
   \<and> fst (checkRateLimit (runCalls Map.empty (replicate 20 (''a'', 0))) ''a'' 3600001)
   \<and> snd (checkRateLimit (runCalls Map.empty (replicate 20 (''a'', 0))) ''a'' 3600001) ''a''
       = Some [3600001]"
proof -
  let ?full = "runCalls Map.empty (replicate 20 (''a'', 0))"
  have ent: "?full ''a'' = Some (replicate 20 0)"
    by (rule after_quota_entry)
  have rej: "\<not> fst (checkRateLimit ?full ''a'' 200)"
    by (simp add: check_fst after_quota)
  have "fst (checkRateLimit ?full ''a'' 3600001)
      \<and> snd (checkRateLimit ?full ''a'' 3600001) ''a''
          = Some (filter (\<lambda>u. 3600001 - 60 * 60 * 1000 < u) (replicate 20 0) @ [3600001])"
    using C5_expiry_frees_slots [of "replicate 20 (''a'', 0)" "''a''" "replicate 20 0" 0 3600001]
      ent by simp
  with ent rej show ?thesis
    by simp
qed

text \<open>
  The scenario with the numbers of the specification, quota 2 and a window of 1000 ms,
  is not what \<open>checkRateLimit\<close> does: its quota is twenty and its window an hour, so the
  third call, at 200, is admitted as well, and at 1001 the timestamp 0 has not expired.
\<close>

theorem C5_spec_scenario_counterexample:
  "runResults Map.empty [(''a'', 0), (''a'', 100), (''a'', 200), (''a'', 1001)]
     = [True, True, True, True]
   \<and> runResults Map.empty [(''a'', 0), (''a'', 100), (''a'', 200), (''a'', 1001)]
     \<noteq> [True, True, False, True]
   \<and> runCalls Map.empty [(''a'', 0), (''a'', 100), (''a'', 200), (''a'', 1001)] ''a''
     = Some [0, 100, 200, 1001]"
  by (simp add: check_local)

text \<open>
  C6 (identities are independent). A call for \<open>a\<close> does not change the entry of any
  other identity \<open>b\<close>. After any calls none of which is for \<open>b\<close>, the entry of \<open>b\<close> is
  what it was, and a check for \<open>b\<close>, at any time, gives the answer and the new entry it
  would have given without those calls. More generally, in any run the entry of \<open>b\<close>
  and the admitted calls of \<open>b\<close> are those of the run with the calls of all other
  identities left out.
\<close>

theorem C6_identities_independent:
  "(a \<noteq> b \<longrightarrow> snd (checkRateLimit log a now) b = log b)
   \<and> ((\<forall>c \<in> set cs. fst c \<noteq> b) \<longrightarrow>
        runCalls log cs b = log b
        \<and> fst (checkRateLimit (runCalls log cs) b now) = fst (checkRateLimit log b now)
        \<and> snd (checkRateLimit (runCalls log cs) b now) b = snd (checkRateLimit log b now) b)
   \<and> runCalls log cs b = runCalls log (filter (\<lambda>c. fst c = b) cs) b
   \<and> admitted log cs b = admitted log (filter (\<lambda>c. fst c = b) cs) b"
proof (intro conjI impI)
  assume "a \<noteq> b"
  then show "snd (checkRateLimit log a now) b = log b"
    by (rule check_other)
next
  assume "\<forall>c \<in> set cs. fst c \<noteq> b"
  then show keep: "runCalls log cs b = log b"
    by (rule runCalls_other)
  show "fst (checkRateLimit (runCalls log cs) b now) = fst (checkRateLimit log b now)"
    using check_cong [of "runCalls log cs" b log b now] keep by simp
  show "snd (checkRateLimit (runCalls log cs) b now) b = snd (checkRateLimit log b now) b"
    using check_cong [of "runCalls log cs" b log b now] keep by simp
next
  show "runCalls log cs b = runCalls log (filter (\<lambda>c. fst c = b) cs) b"
    using run_project [of log b log cs] by simp
  show "admitted log cs b = admitted log (filter (\<lambda>c. fst c = b) cs) b"
    using run_project [of log b log cs] by simp
qed

theorem C6_identities_independent_witness:
  "''a'' \<noteq> ''b''
   \<and> ''b'' \<notin> fst ` set (replicate 20 (''a'', 0::int))
   \<and> \<not> fst (checkRateLimit (runCalls Map.empty (replicate 20 (''a'', 0))) ''a'' 0)
   \<and> snd (checkRateLimit Map.empty ''a'' 0) ''b'' = None
   \<and> runCalls Map.empty (replicate 20 (''a'', 0)) ''b'' = None
   \<and> fst (checkRateLimit (runCalls Map.empty (replicate 20 (''a'', 0))) ''b'' 0)"
proof -
  have rej: "\<not> fst (checkRateLimit (runCalls Map.empty (replicate 20 (''a'', 0))) ''a'' 0)"
    by (simp add: check_fst after_quota)
  have "fst (checkRateLimit Map.empty ''b'' 0)"
    by (simp add: check_fst stored_empty)
  with rej show ?thesis
    using C6_identities_independent
      [of "''a''" "''b''" Map.empty 0 "replicate 20 (''a'', 0)"]
    by simp
qed

text \<open>
  C7 (the answer and the new state are a function of the history and the time). There
  are two functions of the stored history of the identity and of the current time alone,
  one for the answer and one for the new entry, such that every call returns the answer
  of the first and the map it was given with the entry of the identity set by the
  second. So equal histories and equal times give equal answers and equal entries,
  whatever the rest of the map and whatever the identity is called; the clock, read once,
  is the only input besides the map, and nothing is drawn at random.
\<close>

theorem C7_pure_function_of_history_and_time:
  "\<exists>decide update. \<forall>log ip now.
     checkRateLimit log ip now = (decide (log ip) now, log(ip := update (log ip) now))"
proof (intro exI allI)
  fix log :: requestLog and ip now
  show "checkRateLimit log ip now =
    ((\<lambda>h now. length (filter (\<lambda>t. now - 3600000 < t) (case h of None \<Rightarrow> [] | Some ts \<Rightarrow> ts)) < 20)
       (log ip) now,
     log(ip := (\<lambda>h now. if length (filter (\<lambda>t. now - 3600000 < t)
                     (case h of None \<Rightarrow> [] | Some ts \<Rightarrow> ts)) < 20
                then Some (filter (\<lambda>t. now - 3600000 < t)
                     (case h of None \<Rightarrow> [] | Some ts \<Rightarrow> ts) @ [now])
                else h) (log ip) now))"
    by (simp only: check_local)
qed

text \<open>
  C8 (no failure, and the empty identity is a key like any other). Every call, for every
  identity string and every time, returns an answer and a map: \<^verbatim>\<open>Map.get\<close>,
  \<^verbatim>\<open>filter\<close>, \<^verbatim>\<open>length\<close>, \<^verbatim>\<open>push\<close> and \<^verbatim>\<open>Map.set\<close> do not throw, and the
  function has no other exit. The empty string is an ordinary key: with the history
  that another identity \<open>ip\<close> has, a call for the empty string gives the answer and the
  new entry that the call for \<open>ip\<close> gives, and so does every sequence of calls; and all
  callers without an identity share the one entry of the empty string, which admits
  \<open>MAX_REQUESTS_PER_HOUR\<close> calls at a time and rejects the next.
\<close>

theorem C8_total_and_empty_key_ordinary:
  "(\<exists>answer log'. checkRateLimit log ip now = (answer, log'))
   \<and> (log1 '''' = log2 ip \<longrightarrow>
        fst (checkRateLimit log1 '''' now) = fst (checkRateLimit log2 ip now)
        \<and> snd (checkRateLimit log1 '''' now) '''' = snd (checkRateLimit log2 ip now) ip
        \<and> runResults log1 (map (Pair '''') ts) = runResults log2 (map (Pair ip) ts)
        \<and> runCalls log1 (map (Pair '''') ts) '''' = runCalls log2 (map (Pair ip) ts) ip)
   \<and> (log '''' = None \<longrightarrow>
        runResults log (replicate (MAX_REQUESTS_PER_HOUR + 1) ('''', now))
          = replicate MAX_REQUESTS_PER_HOUR True @ [False])"
proof (intro conjI impI)
  show "\<exists>answer log'. checkRateLimit log ip now = (answer, log')"
    by (simp add: check_local)
next
  assume eq: "log1 '''' = log2 ip"
  show "fst (checkRateLimit log1 '''' now) = fst (checkRateLimit log2 ip now)"
    using check_cong [of log1 "''''" log2 ip now] eq by simp
  show "snd (checkRateLimit log1 '''' now) '''' = snd (checkRateLimit log2 ip now) ip"
    using check_cong [of log1 "''''" log2 ip now] eq by simp
  show "runResults log1 (map (Pair '''') ts) = runResults log2 (map (Pair ip) ts)"
    using results_rename [of log1 "''''" log2 ip ts] eq by simp
  show "runCalls log1 (map (Pair '''') ts) '''' = runCalls log2 (map (Pair ip) ts) ip"
    using results_rename [of log1 "''''" log2 ip ts] eq by simp
next
  assume "log '''' = None"
  then have "stored log '''' = []"
    by (simp add: stored_def)
  then have "runResults log (replicate 21 ('''', now)) = map (\<lambda>k. k < 20) [0..<21]"
    by (rule results_repeat)
  then show "runResults log (replicate (MAX_REQUESTS_PER_HOUR + 1) ('''', now))
          = replicate MAX_REQUESTS_PER_HOUR True @ [False]"
    by (simp only: map_less_upt MAX_REQUESTS_PER_HOUR_def) simp
qed

theorem C8_total_and_empty_key_ordinary_witness:
  "(Map.empty :: requestLog) '''' = Map.empty ''unknown''
   \<and> fst (checkRateLimit Map.empty '''' 7)
   \<and> fst (checkRateLimit Map.empty ''unknown'' 7)
   \<and> snd (checkRateLimit Map.empty '''' 7) '''' = Some [7]
   \<and> snd (checkRateLimit Map.empty ''unknown'' 7) ''unknown'' = Some [7]
   \<and> runResults Map.empty (map (Pair '''') [7, 8])
       = runResults Map.empty (map (Pair ''unknown'') [7, 8])
   \<and> runResults Map.empty (replicate (MAX_REQUESTS_PER_HOUR + 1) ('''', 7))
       = replicate MAX_REQUESTS_PER_HOUR True @ [False]"
  using C8_total_and_empty_key_ordinary
    [of Map.empty "''unknown''" 7 Map.empty Map.empty "[7, 8]"]
  by (simp add: check_local)

text \<open>
  C9 (a timestamp exactly one window old has expired). The filter keeps
  \<open>time > now - 60 * 60 * 1000\<close>, so a stored timestamp \<open>t\<close> with
  \<open>now = t + 60 * 60 * 1000\<close> is dropped. In a state reached from the empty map, the
  call at that \<open>now\<close> is therefore admitted, and the new entry, the timestamps younger
  than \<open>t\<close> followed by \<open>now\<close>, no longer holds \<open>t\<close>. For an identity that used up its
  quota with \<open>MAX_REQUESTS_PER_HOUR\<close> calls at the time \<open>T\<close>: the call at
  \<open>T + 60 * 60 * 1000\<close> is admitted, the call one millisecond earlier is rejected.
\<close>

theorem C9_boundary_timestamp_expires:
  "(runCalls Map.empty cs ip = Some ts \<and> t \<in> set ts \<and> now = t + 60 * 60 * 1000 \<longrightarrow>
      fst (checkRateLimit (runCalls Map.empty cs) ip now)
      \<and> snd (checkRateLimit (runCalls Map.empty cs) ip now) ip
          = Some (filter (\<lambda>u. t < u) ts @ [now])
      \<and> t \<notin> set (filter (\<lambda>u. t < u) ts @ [now]))
   \<and> runResults Map.empty
        (replicate MAX_REQUESTS_PER_HOUR (ip, T) @ [(ip, T + 60 * 60 * 1000)])
        = replicate MAX_REQUESTS_PER_HOUR True @ [True]
   \<and> runResults Map.empty
        (replicate MAX_REQUESTS_PER_HOUR (ip, T) @ [(ip, T + 60 * 60 * 1000 - 1)])
        = replicate MAX_REQUESTS_PER_HOUR True @ [False]"
proof (intro conjI impI)
  assume a: "runCalls Map.empty cs ip = Some ts \<and> t \<in> set ts \<and> now = t + 60 * 60 * 1000"
  then have ent: "runCalls Map.empty cs ip = Some ts" and mem: "t \<in> set ts"
    and old: "t \<le> now - 3600000" and cut: "now - 3600000 = t"
    by simp_all
  show "fst (checkRateLimit (runCalls Map.empty cs) ip now)"
    using ent mem old by (rule expired_frees_slot)
  show "snd (checkRateLimit (runCalls Map.empty cs) ip now) ip
          = Some (filter (\<lambda>u. t < u) ts @ [now])"
    using expired_frees_slot(2) [OF ent mem old] by (simp only: cut)
  show "t \<notin> set (filter (\<lambda>u. t < u) ts @ [now])"
    using a by simp
next
  have res: "runResults Map.empty (replicate 20 (ip, T)) = replicate 20 True"
    by (simp only: results_repeat [OF stored_empty] map_less_upt20)
  show "runResults Map.empty
        (replicate MAX_REQUESTS_PER_HOUR (ip, T) @ [(ip, T + 60 * 60 * 1000)])
        = replicate MAX_REQUESTS_PER_HOUR True @ [True]"
    by (simp only: MAX_REQUESTS_PER_HOUR_def runResults_snoc res)
       (simp add: check_fst after_quota)
  show "runResults Map.empty
        (replicate MAX_REQUESTS_PER_HOUR (ip, T) @ [(ip, T + 60 * 60 * 1000 - 1)])
        = replicate MAX_REQUESTS_PER_HOUR True @ [False]"
    by (simp only: MAX_REQUESTS_PER_HOUR_def runResults_snoc res)
       (simp add: check_fst after_quota)
qed

theorem C9_boundary_timestamp_expires_witness:
  "runCalls Map.empty (replicate 20 (''a'', 0)) ''a'' = Some (replicate 20 0)
   \<and> (0::int) \<in> set (replicate 20 0)
   \<and> (3600000::int) = 0 + 60 * 60 * 1000
   \<and> fst (checkRateLimit (runCalls Map.empty (replicate 20 (''a'', 0))) ''a'' 3600000)
   \<and> snd (checkRateLimit (runCalls Map.empty (replicate 20 (''a'', 0))) ''a'' 3600000) ''a''
       = Some [3600000]"
proof -
  let ?full = "runCalls Map.empty (replicate 20 (''a'', 0))"
  have ent: "?full ''a'' = Some (replicate 20 0)"
    by (rule after_quota_entry)
  have "fst (checkRateLimit ?full ''a'' 3600000)
      \<and> snd (checkRateLimit ?full ''a'' 3600000) ''a''
          = Some (filter (\<lambda>u. 0 < u) (replicate 20 0) @ [3600000])"
    using C9_boundary_timestamp_expires
      [of "replicate 20 (''a'', 0)" "''a''" "replicate 20 0" 0 3600000] ent
    by simp
  with ent show ?thesis
    by simp
qed

text \<open>
  C10 (bounded memory per identity). In every state reached from the empty map by any
  sequence of calls, of any identities at any times, the timestamp list stored for
  every identity, stale entries included, has at most \<open>MAX_REQUESTS_PER_HOUR = 20\<close>
  elements.
\<close>

theorem C10_stored_length_bounded:
  "(case runCalls Map.empty cs ip of None \<Rightarrow> 0 | Some ts \<Rightarrow> length ts)
     \<le> MAX_REQUESTS_PER_HOUR
   \<and> MAX_REQUESTS_PER_HOUR = 20"
proof -
  have "length (stored (runCalls Map.empty cs) ip) \<le> 20"
    by (rule length_stored_runCalls) (simp add: stored_empty)
  then show ?thesis
    by (simp add: stored_def MAX_REQUESTS_PER_HOUR_def split: option.splits)
qed

end
